theory Spec2Isabelle
  imports Main
begin

section \<open>Strings and Python values\<close>

text \<open>
  A Python \<open>str\<close> is modelled as a \<open>string\<close>: a list of characters with code
  points below 256. The apostrophe is the character the generator doubles and the fixer's
  pattern splits on.
\<close>

type_synonym str = string

abbreviation apos :: string where
  "apos \<equiv> [CHR 0x27]"

text \<open>
  A cell of a \<open>csv.DictReader\<close> row is a \<open>str\<close>, or Python's \<open>None\<close> when the line
  has fewer cells than the header. A row is a dictionary from column names to cells.
\<close>

datatype pyval = PyNone | PyStr string

type_synonym row = "string \<rightharpoonup> pyval"

datatype error =
    KeyError string
  | AttributeError
  | FileNotFoundError string
  | OverflowError
  | ValueError
  | IndexError

definition bind :: "error + 'a \<Rightarrow> ('a \<Rightarrow> error + 'b) \<Rightarrow> error + 'b" where
  "bind m f = (case m of Inl e \<Rightarrow> Inl e | Inr x \<Rightarrow> f x)"

text \<open>\<open>row[k]\<close>: a missing key raises \<open>KeyError\<close>.\<close>

definition getitem :: "row \<Rightarrow> string \<Rightarrow> error + pyval" where
  "getitem r k = (case r k of None \<Rightarrow> Inl (KeyError k) | Some v \<Rightarrow> Inr v)"

text \<open>\<open>s.replace("'", "''")\<close> on a \<open>str\<close>: every apostrophe becomes two.\<close>

fun replace_quote :: "string \<Rightarrow> string" where
  "replace_quote [] = []"
| "replace_quote (c # cs) =
     (if c = CHR 0x27 then CHR 0x27 # CHR 0x27 # replace_quote cs else c # replace_quote cs)"

text \<open>\<open>v.replace("'", "''")\<close> on a cell: \<open>None\<close> has no such method.\<close>

definition replace_method :: "pyval \<Rightarrow> error + string" where
  "replace_method v = (case v of PyNone \<Rightarrow> Inl AttributeError | PyStr s \<Rightarrow> Inr (replace_quote s))"

text \<open>\<open>f"{v}"\<close>: the text of a value inside a formatted string.\<close>

definition format_val :: "pyval \<Rightarrow> string" where
  "format_val v = (case v of PyNone \<Rightarrow> ''None'' | PyStr s \<Rightarrow> s)"

section \<open>The exercise generator\<close>



text \<open>\<open>row[k] if row[k] != 'None' else None\<close>, for a cell already read.\<close>

definition none_if_sentinel :: "pyval \<Rightarrow> pyval" where
  "none_if_sentinel v = (if v \<noteq> PyStr ''None'' then v else PyNone)"

text \<open>
  \<open>"get_muscle_id('" + m + "')" if m else "NULL"\<close>: the test is Python truthiness, so
  both \<open>None\<close> and the empty string give \<open>NULL\<close>.
\<close>

definition muscle_arg :: "pyval \<Rightarrow> string" where
  "muscle_arg m =
     (case m of
        PyNone \<Rightarrow> ''NULL''
      | PyStr s \<Rightarrow> if s \<noteq> [] then ''get_muscle_id('' @ apos @ s @ apos @ '')'' else ''NULL'')"

text \<open>\<open>str(m is not None).lower()\<close>.\<close>

definition is_compound :: "pyval \<Rightarrow> string" where
  "is_compound m = (if m \<noteq> PyNone then ''true'' else ''false'')"

text \<open>The formatted string of the loop body, from the nine values it interpolates.\<close>

definition insert_text ::
  "string \<Rightarrow> string \<Rightarrow> string \<Rightarrow> pyval \<Rightarrow> pyval \<Rightarrow> pyval \<Rightarrow> pyval \<Rightarrow> string \<Rightarrow> pyval \<Rightarrow> string" where
  \<open>insert_text name description instructions category primary_muscle secondary_muscle
       tertiary_muscle equipment difficulty =
     ''INSERT INTO exercises (name, description, instructions, category, primary_muscle_group_id, secondary_muscle_group_id, tertiary_muscle_group_id, equipment_needed, difficulty_level, is_compound, exercise_type)\<newline>'' @
     ''VALUES ('' @ apos @ name @ apos @ '', '' @ apos @ description @ apos @ '', '' @
       apos @ instructions @ apos @ '', '' @ apos @ format_val category @ apos @ '', \<newline>'' @
     ''        get_muscle_id('' @ apos @ format_val primary_muscle @ apos @ ''), \<newline>'' @
     ''        '' @ muscle_arg secondary_muscle @ '', \<newline>'' @
     ''        '' @ muscle_arg tertiary_muscle @ '',\<newline>'' @
     ''        '' @ apos @ equipment @ apos @ '', '' @ apos @ format_val difficulty @ apos @ '', \<newline>'' @
     ''        '' @ is_compound secondary_muscle @ '', \'strength\');''\<close>

text \<open>One pass of the loop body: the statement for a row, or the exception it raises.\<close>

definition insert_sql :: "row \<Rightarrow> error + string" where
  "insert_sql r =
     bind (bind (getitem r ''name'') replace_method) (\<lambda>name.
     bind (bind (getitem r ''description'') replace_method) (\<lambda>description.
     bind (bind (getitem r ''instructions'') replace_method) (\<lambda>instructions.
     bind (getitem r ''category'') (\<lambda>category.
     bind (getitem r ''primary_muscle'') (\<lambda>primary_muscle.
     bind (getitem r ''secondary_muscle'') (\<lambda>sec.
     bind (getitem r ''tertiary_muscle'') (\<lambda>ter.
     bind (bind (getitem r ''equipment_needed'') replace_method) (\<lambda>equipment.
     bind (getitem r ''difficulty_level'') (\<lambda>difficulty.
       Inr (insert_text name description instructions category primary_muscle
              (none_if_sentinel sec) (none_if_sentinel ter) equipment difficulty))))))))))"




text \<open>\<open>str(n)\<close> for an integer: its decimal digits, after a minus sign when negative.\<close>

definition digit_char :: "int \<Rightarrow> char" where
  "digit_char d = char_of (nat (48 + d))"

function str_digits :: "int \<Rightarrow> string" where
  "str_digits n = (if n < 10 then [digit_char n] else str_digits (n div 10) @ [digit_char (n mod 10)])"
  by pat_completeness auto
termination
  by (relation "measure nat") auto

declare str_digits.simps [simp del]

definition str_int :: "int \<Rightarrow> string" where
  "str_int n = (if n < 0 then CHR ''-'' # str_digits (- n) else str_digits n)"



text \<open>
  The columns of the input file, and the row the reader builds from a line with one cell
  for each column.
\<close>

definition fieldnames :: "string list" where
  "fieldnames = [''name'', ''description'', ''instructions'', ''category'', ''primary_muscle'',
     ''secondary_muscle'', ''tertiary_muscle'', ''equipment_needed'', ''difficulty_level'']"

definition row_of_cells :: "string list \<Rightarrow> row" where
  "row_of_cells cells = map_of (zip fieldnames (map PyStr cells))"

section \<open>The serving-format fixer\<close>

subsection \<open>Character classes and string methods\<close>

text \<open>
  \<open>str.isspace\<close> on one character, which is also what \<open>\s\<close> matches in a \<open>str\<close>
  pattern: tab to carriage return, the four separators 28 to 31, the space, and the two
  code points 133 and 160.
\<close>

definition isspace :: "char \<Rightarrow> bool" where
  "isspace c = (let n = (of_char c :: nat) in
     (9 \<le> n \<and> n \<le> 13) \<or> (28 \<le> n \<and> n \<le> 32) \<or> n = 133 \<or> n = 160)"

text \<open>What \<open>\d\<close> matches: below code point 256 the decimal digits are \<open>0\<close> to \<open>9\<close>.\<close>

definition isdigit :: "char \<Rightarrow> bool" where
  "isdigit c = (let n = (of_char c :: nat) in 48 \<le> n \<and> n \<le> 57)"

text \<open>The class \<open>[^']\<close>.\<close>

definition not_quote :: "char \<Rightarrow> bool" where
  "not_quote c = (c \<noteq> CHR 0x27)"

definition lstrip :: "string \<Rightarrow> string" where
  "lstrip s = dropWhile isspace s"

definition rstrip :: "string \<Rightarrow> string" where
  "rstrip s = rev (dropWhile isspace (rev s))"

definition strip :: "string \<Rightarrow> string" where
  "strip s = rstrip (lstrip s)"

definition startswith :: "string \<Rightarrow> string \<Rightarrow> bool" where
  "startswith s p = (take (length p) s = p)"

definition endswith :: "string \<Rightarrow> string \<Rightarrow> bool" where
  "endswith s p = (length p \<le> length s \<and> drop (length s - length p) s = p)"

subsection \<open>Regular expressions with backtracking\<close>

text \<open>
  The constructs the fixer's pattern is written with: a literal character, a greedy
  \<open>*\<close> or \<open>+\<close> on a character class, an optional non-capturing group \<open>(?:...)?\<close> and a
  capturing group \<open>(...)\<close>. A pattern is a sequence of them.
\<close>

datatype rx =
    Lit char
  | Star "char \<Rightarrow> bool"
  | Plus "char \<Rightarrow> bool"
  | Opt "rx list"
  | Grp "rx list"

text \<open>
  Matching at the start of a text gives every way to match, in the order the backtracking
  engine tries them: each is the captured groups with the text left over.

  A greedy repetition of a character class takes the longest run first and gives
  characters back one at a time: \<open>star p s\<close> lists the texts that can be left over, in
  that order; \<open>plus p s\<close> is the same with at least one character taken.
\<close>

fun star :: "(char \<Rightarrow> bool) \<Rightarrow> string \<Rightarrow> string list" where
  "star p [] = [[]]"
| "star p (c # cs) = (if p c then star p cs @ [c # cs] else [c # cs])"

fun plus :: "(char \<Rightarrow> bool) \<Rightarrow> string \<Rightarrow> string list" where
  "plus p [] = []"
| "plus p (c # cs) = (if p c then star p cs else [])"

text \<open>
  A capturing group adds the text it matched in front of the groups inside it; a sequence
  puts the groups of its first piece before those of the rest.
\<close>

fun capture :: "string \<Rightarrow> string list \<times> string \<Rightarrow> string list \<times> string" where
  "capture s (caps, rest) = (take (length s - length rest) s # caps, rest)"

fun prepend :: "string list \<Rightarrow> string list \<times> string \<Rightarrow> string list \<times> string" where
  "prepend caps1 (caps2, rest) = (caps1 @ caps2, rest)"

text \<open>
  \<open>m_rx\<close> matches one construct and \<open>m_seq\<close> a sequence; \<open>m_cont rs ms\<close> continues with
  the sequence \<open>rs\<close> after each way \<open>ms\<close> of matching what came before, in order. An
  optional group tries its body before skipping it.
\<close>

function (sequential) m_rx :: "rx \<Rightarrow> string \<Rightarrow> (string list \<times> string) list"
  and m_seq :: "rx list \<Rightarrow> string \<Rightarrow> (string list \<times> string) list"
  and m_cont :: "rx list \<Rightarrow> (string list \<times> string) list \<Rightarrow> (string list \<times> string) list" where
  "m_rx (Lit c) [] = []"
| "m_rx (Lit c) (x # xs) = (if x = c then [([], xs)] else [])"
| "m_rx (Star p) s = map (Pair []) (star p s)"
| "m_rx (Plus p) s = map (Pair []) (plus p s)"
| "m_rx (Opt rs) s = m_seq rs s @ [([], s)]"
| "m_rx (Grp rs) s = map (capture s) (m_seq rs s)"
| "m_seq [] s = [([], s)]"
| "m_seq (r # rs) s = m_cont rs (m_rx r s)"
| "m_cont rs [] = []"
| "m_cont rs ((caps1, rest1) # ms) = map (prepend caps1) (m_seq rs rest1) @ m_cont rs ms"
  by pat_completeness auto
termination
  by (relation "inv_image (less_than <*lex*> less_than <*lex*> less_than)
      (\<lambda>x. case x of
         Inl (r, s) \<Rightarrow> (size r, 0, 0)
       | Inr (Inl (rs, s)) \<Rightarrow> (size_list size rs, 0, 0)
       | Inr (Inr (rs, ms)) \<Rightarrow> (size_list size rs, 1, length ms))") auto

text \<open>
  \<open>re.search\<close>: the first way to match at the leftmost position that has one; the result
  is the list of groups 1, 2, ... of the match.
\<close>

fun re_search :: "rx list \<Rightarrow> string \<Rightarrow> string list option" where
  "re_search rs [] = (case m_seq rs [] of [] \<Rightarrow> None | (caps, rest) # _ \<Rightarrow> Some caps)"
| "re_search rs (c # cs) =
     (case m_seq rs (c # cs) of [] \<Rightarrow> re_search rs cs | (caps, rest) # _ \<Rightarrow> Some caps)"

text \<open>The pieces of the pattern: \<open>'([^']+)'\<close>, \<open>'([^']*)'\<close>, \<open>(\d+(?:\.\d+)?)\<close> and \<open>,\s*\<close>.\<close>

definition quoted_plus :: "rx list" where
  "quoted_plus = [Lit (CHR 0x27), Grp [Plus not_quote], Lit (CHR 0x27)]"

definition quoted_star :: "rx list" where
  "quoted_star = [Lit (CHR 0x27), Grp [Star not_quote], Lit (CHR 0x27)]"

definition number :: "rx list" where
  "number = [Grp [Plus isdigit, Opt [Lit (CHR ''.''), Plus isdigit]]]"

definition comma :: "rx list" where
  "comma = [Lit (CHR '',''), Star isspace]"

text \<open>
  The pattern of \<open>fix_values_line\<close>:
  \<^verbatim>\<open>\('([^']+)',\s*'([^']*)',\s*(\d+(?:\.\d+)?),\s*'([^']+)',\s*(\d+(?:\.\d+)?),\s*\<close>
  \<^verbatim>\<open>(\d+(?:\.\d+)?),\s*(\d+(?:\.\d+)?),\s*(\d+(?:\.\d+)?),\s*(\d+(?:\.\d+)?),\s*\<close>
  \<^verbatim>\<open>(\d+(?:\.\d+)?),\s*'([^']+)',\s*'([^']+)',\s*'([^']+)'\)\<close>
\<close>

definition pattern :: "rx list" where
  "pattern =
     [Lit (CHR ''('')] @ quoted_plus @ comma @ quoted_star @ comma @ number @ comma @
     quoted_plus @ comma @ number @ comma @ number @ comma @ number @ comma @ number @ comma @
     number @ comma @ number @ comma @ quoted_plus @ comma @ quoted_plus @ comma @
     quoted_plus @ [Lit (CHR '')'')]"

subsection \<open>\<open>int(float(s))\<close>\<close>

text \<open>
  \<open>float\<close> reads a decimal numeral as the nearest binary64 number, ties to even, and gives
  infinity from \<open>2^1024\<close> on; \<open>int\<close> then drops the fraction, and raises \<open>OverflowError\<close> on
  infinity. \<open>round_half_even a b\<close> is the integer nearest to \<open>a / b\<close>.
\<close>

definition round_half_even :: "int \<Rightarrow> int \<Rightarrow> int" where
  "round_half_even a b =
     (let q = a div b; r = a mod b in
      if 2 * r < b then q else if b < 2 * r then q + 1 else if even q then q else q + 1)"

text \<open>The number of binary digits of a positive integer.\<close>

function bit_length :: "int \<Rightarrow> nat" where
  "bit_length n = (if n \<le> 0 then 0 else Suc (bit_length (n div 2)))"
  by pat_completeness auto
termination
  by (relation "measure nat") auto

declare bit_length.simps [simp del]

text \<open>
  \<open>int(float(a / b))\<close> for integers \<open>a \<ge> 0\<close> and \<open>b > 0\<close>. With \<open>k = bit_length (a div b)\<close>
  the value lies in \<open>[2^(k-1), 2^k)\<close> (in \<open>[1/2, 1)\<close> for \<open>k = 0\<close>, where \<open>2 * a \<ge> b\<close>), so
  binary64 keeps 53 significant bits of it: a multiple of \<open>2^(k-53)\<close>.
\<close>

definition int_float_ratio :: "int \<Rightarrow> int \<Rightarrow> error + int" where
  "int_float_ratio a b =
     (if 2 * a < b then Inr 0
      else let k = bit_length (a div b) in
        if k \<le> 53 then Inr (round_half_even (a * 2 ^ (53 - k)) b div 2 ^ (53 - k))
        else let v = round_half_even a (b * 2 ^ (k - 53)) * 2 ^ (k - 53) in
          if 2 ^ 1024 \<le> v then Inl OverflowError else Inr v)"

text \<open>The value of a run of decimal digits.\<close>

definition digits_value :: "string \<Rightarrow> int" where
  "digits_value s = foldl (\<lambda>a c. 10 * a + (of_char c - 48)) 0 s"

text \<open>
  The shape of a numeral the pattern captures with \<open>\d+(?:\.\d+)?\<close>: digits, then
  possibly a point and more digits.
\<close>

definition is_numeral :: "string \<Rightarrow> bool" where
  "is_numeral s =
     (let ip = takeWhile isdigit s; rest = dropWhile isdigit s in
      ip \<noteq> [] \<and>
      (rest = [] \<or> (hd rest = CHR ''.'' \<and> tl rest \<noteq> [] \<and> list_all isdigit (tl rest))))"

text \<open>
  \<open>int(float(s))\<close> for a numeral \<open>s\<close> of that shape: the digits without the point, over
  the power of ten for the digits after it. On any other text the model gives
  \<open>ValueError\<close>.
\<close>

definition int_float :: "string \<Rightarrow> error + int" where
  "int_float s =
     (if \<not> is_numeral s then Inl ValueError
      else let ip = takeWhile isdigit s; fp = tl (dropWhile isdigit s) in
        int_float_ratio (digits_value (ip @ fp)) (10 ^ length fp))"

subsection \<open>\<open>fix_values_line\<close>\<close>

text \<open>
  The merged serving description: the size and the unit side by side, except for grams
  with \<open>int(float(size)) > 1\<close>, where the size is printed as that integer. The conversion
  is evaluated only for the unit \<open>g\<close>.
\<close>

definition serving_desc :: "string \<Rightarrow> string \<Rightarrow> error + string" where
  "serving_desc serving_size serving_unit =
     (let desc = (if serving_unit \<noteq> ''g'' then serving_size @ serving_unit
                  else serving_size @ ''g'') in
      if serving_unit = ''g'' then
        bind (int_float serving_size) (\<lambda>n. if 1 < n then Inr (str_int n @ ''g'') else Inr desc)
      else Inr desc)"

text \<open>The rewritten tuple, before the trailing punctuation and the line break.\<close>

definition new_line ::
  "str \<Rightarrow> str \<Rightarrow> str \<Rightarrow> str \<Rightarrow> str \<Rightarrow> str \<Rightarrow> str \<Rightarrow> str \<Rightarrow> str \<Rightarrow> str \<Rightarrow> str \<Rightarrow> str \<Rightarrow> str" where
  \<open>new_line food_name brand desc calories protein carbs fat fiber sugar category source status =
     ''  ('' @ apos @ food_name @ apos @ '', '' @ apos @ brand @ apos @ '', '' @ apos @ desc @ apos @
     '', '' @ calories @ '', '' @ protein @ '', '' @ carbs @ '', '' @ fat @ '', '' @ fiber @
     '', '' @ sugar @ '', '' @ apos @ category @ apos @ '', '' @ apos @ source @ apos @ '', '' @
     apos @ status @ apos @ '')''\<close>

text \<open>The comma or semicolon kept from the end of the line.\<close>

definition line_end :: "string \<Rightarrow> string" where
  "line_end line =
     (if endswith (rstrip line) '','' then '',''
      else if endswith (rstrip line) '';'' then '';''
      else [])"

definition fix_values_line :: "string \<Rightarrow> error + string" where
  "fix_values_line line =
     (if \<not> startswith (strip line) (''('' @ apos) then Inr line
      else case re_search pattern line of
        None \<Rightarrow> Inr line
      | Some [food_name, brand, serving_size, serving_unit, calories, protein, carbs, fat, fiber,
              sugar, category, source, status] \<Rightarrow>
          bind (serving_desc serving_size serving_unit) (\<lambda>desc.
            Inr (new_line food_name brand desc calories protein carbs fat fiber sugar category
                   source status @ line_end line @ ''\<newline>''))
      | Some _ \<Rightarrow> Inl IndexError)"

text \<open>The loop of \<open>main\<close> over the lines: it stops at the first exception.\<close>

fun fix_lines :: "string list \<Rightarrow> error + string list" where
  "fix_lines [] = Inr []"
| "fix_lines (l # ls) = bind (fix_values_line l) (\<lambda>x. bind (fix_lines ls) (\<lambda>xs. Inr (x # xs)))"

subsection \<open>Reading a tuple literal\<close>

text \<open>
  The fields of the text between the parentheses of a tuple literal: it is cut at every
  comma that is outside single quotes. The flag says whether a quote is open.
\<close>

fun split_fields :: "bool \<Rightarrow> string \<Rightarrow> string list" where
  "split_fields inq [] = [[]]"
| "split_fields inq (c # cs) =
     (if c = CHR 0x27 then
        (case split_fields (\<not> inq) cs of [] \<Rightarrow> [[c]] | f # fs \<Rightarrow> (c # f) # fs)
      else if c = CHR '','' \<and> \<not> inq then [] # split_fields inq cs
      else (case split_fields inq cs of [] \<Rightarrow> [[c]] | f # fs \<Rightarrow> (c # f) # fs))"

section \<open>Properties of the generator\<close>

lemma bind_Inr_iff: "bind m f = Inr y \<longleftrightarrow> (\<exists>x. m = Inr x \<and> f x = Inr y)"
  by (cases m) (simp_all add: bind_def)

lemma getitem_Inr_iff: "getitem r k = Inr v \<longleftrightarrow> r k = Some v"
  by (simp add: getitem_def split: option.splits)

lemma replace_method_Inr_iff: "replace_method v = Inr s \<longleftrightarrow> (\<exists>x. v = PyStr x \<and> s = replace_quote x)"
  by (cases v) (auto simp: replace_method_def)


lemma step_str:
  "bind (bind (getitem r k) replace_method) f = Inr s \<longleftrightarrow>
     (\<exists>x. r k = Some (PyStr x) \<and> f (replace_quote x) = Inr s)"
  by (auto simp: bind_def getitem_def replace_method_def split: option.splits pyval.splits)

lemma step_val:
  "bind (getitem r k) f = Inr s \<longleftrightarrow> (\<exists>v. r k = Some v \<and> f v = Inr s)"
  by (auto simp: bind_def getitem_def split: option.splits)

lemma insert_sql_Inr_iff:
  "insert_sql r = Inr s \<longleftrightarrow>
     (\<exists>n d i c p sec ter e dl.
        r ''name'' = Some (PyStr n) \<and> r ''description'' = Some (PyStr d) \<and>
        r ''instructions'' = Some (PyStr i) \<and> r ''category'' = Some c \<and>
        r ''primary_muscle'' = Some p \<and> r ''secondary_muscle'' = Some sec \<and>
        r ''tertiary_muscle'' = Some ter \<and> r ''equipment_needed'' = Some (PyStr e) \<and>
        r ''difficulty_level'' = Some dl \<and>
        s = insert_text (replace_quote n) (replace_quote d) (replace_quote i) c p
              (none_if_sentinel sec) (none_if_sentinel ter) (replace_quote e) dl)"
  unfolding insert_sql_def step_str step_val
  apply (simp only: sum.inject ex_simps)
  apply (rule iffI)
   apply (elim exE conjE)
   apply (intro exI conjI; (assumption | (erule sym)))
  apply (elim exE conjE)
  apply (intro exI conjI; (assumption | (erule sym)))
  done

lemma insert_sql_cells:
  assumes "r ''name'' = Some (PyStr n)" "r ''description'' = Some (PyStr d)"
    "r ''instructions'' = Some (PyStr i)" "r ''category'' = Some c"
    "r ''primary_muscle'' = Some p" "r ''secondary_muscle'' = Some sec"
    "r ''tertiary_muscle'' = Some ter" "r ''equipment_needed'' = Some (PyStr e)"
    "r ''difficulty_level'' = Some dl"
  shows "insert_sql r = Inr (insert_text (replace_quote n) (replace_quote d) (replace_quote i) c p
           (none_if_sentinel sec) (none_if_sentinel ter) (replace_quote e) dl)"
  unfolding insert_sql_Inr_iff using assms by blast

lemma row_of_cells_simps:
  "row_of_cells [a, b, c, d, e, f, g, h, i] ''name'' = Some (PyStr a)"
  "row_of_cells [a, b, c, d, e, f, g, h, i] ''description'' = Some (PyStr b)"
  "row_of_cells [a, b, c, d, e, f, g, h, i] ''instructions'' = Some (PyStr c)"
  "row_of_cells [a, b, c, d, e, f, g, h, i] ''category'' = Some (PyStr d)"
  "row_of_cells [a, b, c, d, e, f, g, h, i] ''primary_muscle'' = Some (PyStr e)"
  "row_of_cells [a, b, c, d, e, f, g, h, i] ''secondary_muscle'' = Some (PyStr f)"
  "row_of_cells [a, b, c, d, e, f, g, h, i] ''tertiary_muscle'' = Some (PyStr g)"
  "row_of_cells [a, b, c, d, e, f, g, h, i] ''equipment_needed'' = Some (PyStr h)"
  "row_of_cells [a, b, c, d, e, f, g, h, i] ''difficulty_level'' = Some (PyStr i)"
  by (simp_all add: row_of_cells_def fieldnames_def)

text \<open>
  C6. A row whose secondary and tertiary muscle cells are both the text \<open>None\<close>, and for
  which a statement is generated, gets \<open>NULL\<close> for both muscle arguments, without the
  \<open>get_muscle_id\<close> wrapper, and \<open>false\<close> for \<open>is_compound\<close>.
\<close>

theorem none_muscles_give_null_and_false:
  assumes "r ''name'' = Some (PyStr n)" "r ''description'' = Some (PyStr d)"
    "r ''instructions'' = Some (PyStr i)" "r ''category'' = Some c"
    "r ''primary_muscle'' = Some p" "r ''secondary_muscle'' = Some (PyStr ''None'')"
    "r ''tertiary_muscle'' = Some (PyStr ''None'')" "r ''equipment_needed'' = Some (PyStr e)"
    "r ''difficulty_level'' = Some dl"
  shows \<open>insert_sql r = Inr (
     ''INSERT INTO exercises (name, description, instructions, category, primary_muscle_group_id, secondary_muscle_group_id, tertiary_muscle_group_id, equipment_needed, difficulty_level, is_compound, exercise_type)\<newline>'' @
     ''VALUES ('' @ apos @ replace_quote n @ apos @ '', '' @ apos @ replace_quote d @ apos @ '', '' @
       apos @ replace_quote i @ apos @ '', '' @ apos @ format_val c @ apos @ '', \<newline>'' @
     ''        get_muscle_id('' @ apos @ format_val p @ apos @ ''), \<newline>'' @
     ''        NULL, \<newline>'' @
     ''        NULL,\<newline>'' @
     ''        '' @ apos @ replace_quote e @ apos @ '', '' @ apos @ format_val dl @ apos @ '', \<newline>'' @
     ''        false, \'strength\');'')\<close>
  unfolding insert_sql_cells [OF assms]
  by (simp add: insert_text_def none_if_sentinel_def muscle_arg_def is_compound_def)

theorem none_muscles_give_null_and_false_witness:
  \<open>insert_sql (row_of_cells [''Push Up'', ''A classic'', ''Lower, then press'', ''Bodyweight'',
       ''Chest'', ''None'', ''None'', ''None'', ''Beginner'']) = Inr (
     ''INSERT INTO exercises (name, description, instructions, category, primary_muscle_group_id, secondary_muscle_group_id, tertiary_muscle_group_id, equipment_needed, difficulty_level, is_compound, exercise_type)\<newline>'' @
     ''VALUES (\'Push Up\', \'A classic\', \'Lower, then press\', \'Bodyweight\', \<newline>'' @
     ''        get_muscle_id(\'Chest\'), \<newline>'' @
     ''        NULL, \<newline>'' @
     ''        NULL,\<newline>'' @
     ''        \'None\', \'Beginner\', \<newline>'' @
     ''        false, \'strength\');'')\<close>
  using none_muscles_give_null_and_false [where r = "row_of_cells [''Push Up'', ''A classic'',
      ''Lower, then press'', ''Bodyweight'', ''Chest'', ''None'', ''None'', ''None'', ''Beginner'']",
      OF row_of_cells_simps]
  by (simp add: format_val_def)


lemma replace_quote_concat:
  "replace_quote x = concat (map (\<lambda>c. if c = CHR 0x27 then [c, c] else [c]) x)"
  by (induction x) simp_all

text \<open>
  C7. For every row for which a statement is generated, the name, description,
  instructions and equipment cells are embedded with every apostrophe doubled; the name
  \<open>O'Brien's\<close> is embedded as \<open>O''Brien''s\<close>.
\<close>

theorem escaped_cells_are_doubled:
  assumes "r ''name'' = Some (PyStr n)" "r ''description'' = Some (PyStr d)"
    "r ''instructions'' = Some (PyStr i)" "r ''category'' = Some c"
    "r ''primary_muscle'' = Some p" "r ''secondary_muscle'' = Some sec"
    "r ''tertiary_muscle'' = Some ter" "r ''equipment_needed'' = Some (PyStr e)"
    "r ''difficulty_level'' = Some dl"
  shows \<open>insert_sql r = Inr (
     ''INSERT INTO exercises (name, description, instructions, category, primary_muscle_group_id, secondary_muscle_group_id, tertiary_muscle_group_id, equipment_needed, difficulty_level, is_compound, exercise_type)\<newline>'' @
     ''VALUES ('' @ apos @ replace_quote n @ apos @ '', '' @ apos @ replace_quote d @ apos @ '', '' @
       apos @ replace_quote i @ apos @ '', '' @ apos @ format_val c @ apos @ '', \<newline>'' @
     ''        get_muscle_id('' @ apos @ format_val p @ apos @ ''), \<newline>'' @
     ''        '' @ muscle_arg (none_if_sentinel sec) @ '', \<newline>'' @
     ''        '' @ muscle_arg (none_if_sentinel ter) @ '',\<newline>'' @
     ''        '' @ apos @ replace_quote e @ apos @ '', '' @ apos @ format_val dl @ apos @ '', \<newline>'' @
     ''        '' @ is_compound (none_if_sentinel sec) @ '', \'strength\');'')
   \<and> replace_quote x = concat (map (\<lambda>c. if c = CHR 0x27 then [c, c] else [c]) x)
   \<and> replace_quote ''O\'Brien\'s'' = ''O'' @ apos @ ''\'Brien'' @ apos @ ''\'s''\<close>
  unfolding insert_sql_cells [OF assms]
  by (simp add: insert_text_def replace_quote_concat)

theorem escaped_cells_are_doubled_witness:
  \<open>insert_sql (row_of_cells [''O\'Brien\'s'', ''Don\'t rush'', ''Keep the bar\'s path straight'',
       ''Free Weight'', ''Back'', ''Biceps'', ''None'', ''Barbell (20kg, men\'s)'', ''Beginner'']) = Inr (
     ''INSERT INTO exercises (name, description, instructions, category, primary_muscle_group_id, secondary_muscle_group_id, tertiary_muscle_group_id, equipment_needed, difficulty_level, is_compound, exercise_type)\<newline>'' @
     ''VALUES (\'O'' @ apos @ ''\'Brien'' @ apos @ ''\'s\', \'Don'' @ apos @ ''\'t rush\', \'Keep the bar'' @ apos @ ''\'s path straight\', \'Free Weight\', \<newline>'' @
     ''        get_muscle_id(\'Back\'), \<newline>'' @
     ''        get_muscle_id(\'Biceps\'), \<newline>'' @
     ''        NULL,\<newline>'' @
     ''        \'Barbell (20kg, men'' @ apos @ ''\'s)\', \'Beginner\', \<newline>'' @
     ''        true, \'strength\');'')\<close>
  using escaped_cells_are_doubled [where r = \<open>row_of_cells [''O\'Brien\'s'', ''Don\'t rush'',
      ''Keep the bar\'s path straight'', ''Free Weight'', ''Back'', ''Biceps'', ''None'',
      ''Barbell (20kg, men\'s)'', ''Beginner'']\<close>, OF row_of_cells_simps]
  by (simp add: format_val_def none_if_sentinel_def muscle_arg_def is_compound_def)

text \<open>
  C10. A row whose secondary muscle cell is the empty text, and for which a statement is
  generated, gets \<open>NULL\<close> for the secondary muscle argument, without the wrapper, and
  \<open>true\<close> for \<open>is_compound\<close>: the two disagree on that row.
\<close>

theorem empty_secondary_gives_null_and_true:
  assumes "r ''name'' = Some (PyStr n)" "r ''description'' = Some (PyStr d)"
    "r ''instructions'' = Some (PyStr i)" "r ''category'' = Some c"
    "r ''primary_muscle'' = Some p" "r ''secondary_muscle'' = Some (PyStr [])"
    "r ''tertiary_muscle'' = Some ter" "r ''equipment_needed'' = Some (PyStr e)"
    "r ''difficulty_level'' = Some dl"
  shows \<open>insert_sql r = Inr (
     ''INSERT INTO exercises (name, description, instructions, category, primary_muscle_group_id, secondary_muscle_group_id, tertiary_muscle_group_id, equipment_needed, difficulty_level, is_compound, exercise_type)\<newline>'' @
     ''VALUES ('' @ apos @ replace_quote n @ apos @ '', '' @ apos @ replace_quote d @ apos @ '', '' @
       apos @ replace_quote i @ apos @ '', '' @ apos @ format_val c @ apos @ '', \<newline>'' @
     ''        get_muscle_id('' @ apos @ format_val p @ apos @ ''), \<newline>'' @
     ''        NULL, \<newline>'' @
     ''        '' @ muscle_arg (none_if_sentinel ter) @ '',\<newline>'' @
     ''        '' @ apos @ replace_quote e @ apos @ '', '' @ apos @ format_val dl @ apos @ '', \<newline>'' @
     ''        true, \'strength\');'')\<close>
  unfolding insert_sql_cells [OF assms]
  by (simp add: insert_text_def none_if_sentinel_def muscle_arg_def is_compound_def)

theorem empty_secondary_gives_null_and_true_witness:
  \<open>insert_sql (row_of_cells [''Plank'', ''Hold still'', ''Brace and breathe'', ''Bodyweight'',
       ''Core'', [], ''None'', ''Mat'', ''Beginner'']) = Inr (
     ''INSERT INTO exercises (name, description, instructions, category, primary_muscle_group_id, secondary_muscle_group_id, tertiary_muscle_group_id, equipment_needed, difficulty_level, is_compound, exercise_type)\<newline>'' @
     ''VALUES (\'Plank\', \'Hold still\', \'Brace and breathe\', \'Bodyweight\', \<newline>'' @
     ''        get_muscle_id(\'Core\'), \<newline>'' @
     ''        NULL, \<newline>'' @
     ''        NULL,\<newline>'' @
     ''        \'Mat\', \'Beginner\', \<newline>'' @
     ''        true, \'strength\');'')\<close>
  using empty_secondary_gives_null_and_true [where r = "row_of_cells [''Plank'', ''Hold still'',
      ''Brace and breathe'', ''Bodyweight'', ''Core'', [], ''None'', ''Mat'', ''Beginner'']",
      OF row_of_cells_simps]
  by (simp add: format_val_def none_if_sentinel_def muscle_arg_def)


text \<open>
  C1. The statement generated for a row whose secondary muscle cell is the empty text: the
  cell is not the text \<open>None\<close>, yet the secondary muscle argument is \<open>NULL\<close>, not a
  \<open>get_muscle_id\<close> call, and \<open>is_compound\<close> is \<open>true\<close> although no muscle name was given.
\<close>

theorem empty_secondary_is_not_wrapped:
  \<open>insert_sql (row_of_cells [''Side Plank'', ''Hold the line'', ''Stack the feet'', ''Bodyweight'',
       ''Obliques'', [], ''Shoulders'', ''Mat'', ''Intermediate'']) = Inr (
     ''INSERT INTO exercises (name, description, instructions, category, primary_muscle_group_id, secondary_muscle_group_id, tertiary_muscle_group_id, equipment_needed, difficulty_level, is_compound, exercise_type)\<newline>'' @
     ''VALUES (\'Side Plank\', \'Hold the line\', \'Stack the feet\', \'Bodyweight\', \<newline>'' @
     ''        get_muscle_id(\'Obliques\'), \<newline>'' @
     ''        NULL, \<newline>'' @
     ''        get_muscle_id(\'Shoulders\'),\<newline>'' @
     ''        \'Mat\', \'Intermediate\', \<newline>'' @
     ''        true, \'strength\');'')\<close>
  unfolding insert_sql_cells [OF row_of_cells_simps]
  by (simp add: insert_text_def format_val_def none_if_sentinel_def muscle_arg_def is_compound_def)

text \<open>
  C3. The statement generated for a row with an apostrophe in the category, the three
  muscle cells and the difficulty: each of the five is embedded as it is, with its
  apostrophe not doubled.
\<close>

theorem unescaped_cells_are_embedded_raw:
  \<open>insert_sql (row_of_cells [''Bench Press'', ''Press the bar'', ''Lower, then press'', ''Men\'s'',
       ''Ch\'est'', ''Tri\'ceps'', ''De\'lts'', ''Barbell'', ''Be\'ginner'']) = Inr (
     ''INSERT INTO exercises (name, description, instructions, category, primary_muscle_group_id, secondary_muscle_group_id, tertiary_muscle_group_id, equipment_needed, difficulty_level, is_compound, exercise_type)\<newline>'' @
     ''VALUES (\'Bench Press\', \'Press the bar\', \'Lower, then press\', \'Men\'s\', \<newline>'' @
     ''        get_muscle_id(\'Ch\'est\'), \<newline>'' @
     ''        get_muscle_id(\'Tri\'ceps\'), \<newline>'' @
     ''        get_muscle_id(\'De\'lts\'),\<newline>'' @
     ''        \'Barbell\', \'Be\'ginner\', \<newline>'' @
     ''        true, \'strength\');'')\<close>
  unfolding insert_sql_cells [OF row_of_cells_simps]
  by (simp add: insert_text_def format_val_def none_if_sentinel_def muscle_arg_def is_compound_def)





section \<open>Properties of the fixer\<close>

subsection \<open>What a match looks like\<close>

lemma m_cont_iff:
  "(caps, rest) \<in> set (m_cont rs ms) \<longleftrightarrow>
     (\<exists>c1 mid c2. (c1, mid) \<in> set ms \<and> (c2, rest) \<in> set (m_seq rs mid) \<and> caps = c1 @ c2)"
proof (induction ms)
  case Nil
  then show ?case by simp
next
  case (Cons m ms)
  obtain a b where m: "m = (a, b)" by (cases m)
  have "(caps, rest) \<in> set (map (prepend a) (m_seq rs b)) \<longleftrightarrow>
      (\<exists>c2. (c2, rest) \<in> set (m_seq rs b) \<and> caps = a @ c2)"
    by force
  with Cons.IH show ?case unfolding m by (simp del: prepend.simps) blast
qed

lemma m_seq_Cons_iff:
  "(caps, rest) \<in> set (m_seq (r # rs) s) \<longleftrightarrow>
     (\<exists>c1 mid c2. (c1, mid) \<in> set (m_rx r s) \<and> (c2, rest) \<in> set (m_seq rs mid) \<and> caps = c1 @ c2)"
  by (simp only: m_seq.simps m_cont_iff)

lemma star_suffix: "rest \<in> set (star p s) \<Longrightarrow> \<exists>u. s = u @ rest \<and> list_all p u"
proof (induction s)
  case Nil
  then show ?case by simp
next
  case (Cons c cs)
  show ?case
  proof (cases "rest = c # cs")
    case True
    then have "c # cs = [] @ rest \<and> list_all p []" by simp
    then show ?thesis by blast
  next
    case False
    with Cons.prems have pc: "p c" and "rest \<in> set (star p cs)"
      by (auto split: if_splits)
    from Cons.IH [OF this(2)] obtain u where "cs = u @ rest" "list_all p u" by blast
    with pc have "c # cs = (c # u) @ rest \<and> list_all p (c # u)" by simp
    then show ?thesis by blast
  qed
qed

lemma plus_suffix: "rest \<in> set (plus p s) \<Longrightarrow> \<exists>u. s = u @ rest \<and> u \<noteq> [] \<and> list_all p u"
proof (cases s)
  case Nil
  assume "rest \<in> set (plus p s)"
  with Nil show ?thesis by simp
next
  case (Cons c cs)
  assume "rest \<in> set (plus p s)"
  with Cons have pc: "p c" and "rest \<in> set (star p cs)"
    by (auto split: if_splits)
  from star_suffix [OF this(2)] obtain u where "cs = u @ rest" "list_all p u" by blast
  with pc Cons have "s = (c # u) @ rest \<and> c # u \<noteq> [] \<and> list_all p (c # u)" by simp
  then show ?thesis by blast
qed

lemma in_Lit: "(caps, rest) \<in> set (m_rx (Lit c) s) \<longleftrightarrow> caps = [] \<and> s = c # rest"
  by (cases s) auto

lemma in_Star:
  "(caps, rest) \<in> set (m_rx (Star p) s) \<Longrightarrow> caps = [] \<and> (\<exists>u. s = u @ rest \<and> list_all p u)"
  by (auto dest: star_suffix)

lemma in_Plus:
  "(caps, rest) \<in> set (m_rx (Plus p) s) \<Longrightarrow>
     caps = [] \<and> (\<exists>u. s = u @ rest \<and> u \<noteq> [] \<and> list_all p u)"
  by (auto dest: plus_suffix)

lemma in_Opt:
  "(caps, rest) \<in> set (m_rx (Opt rs) s) \<Longrightarrow>
     (caps, rest) \<in> set (m_seq rs s) \<or> (caps = [] \<and> rest = s)"
  by auto

lemma m_seq_suffix:
  "(caps, rest) \<in> set (m_rx r s) \<Longrightarrow> \<exists>u. s = u @ rest"
  "(caps, rest) \<in> set (m_seq rs s) \<Longrightarrow> \<exists>u. s = u @ rest"
  "(caps, rest) \<in> set (m_cont rs ms) \<Longrightarrow> \<exists>c1 mid u. (c1, mid) \<in> set ms \<and> mid = u @ rest"
proof (induction r s and rs s and rs ms arbitrary: caps rest and caps rest and caps rest
    rule: m_rx_m_seq_m_cont.induct)
  case (1 c)
  then show ?case by simp
next
  case (2 c x xs)
  then show ?case by (auto split: if_splits)
next
  case (3 p s)
  from in_Star [OF "3.prems"] show ?case by blast
next
  case (4 p s)
  from in_Plus [OF "4.prems"] show ?case by blast
next
  case (5 rs s)
  then show ?case by auto
next
  case (6 rs s)
  then show ?case by auto
next
  case (7 s)
  then show ?case by simp
next
  case (8 r rs s)
  from "8.prems" have "(caps, rest) \<in> set (m_cont rs (m_rx r s))" by simp
  from "8.IH"(2) [OF this] obtain c1 mid u where
    a: "(c1, mid) \<in> set (m_rx r s)" and b: "mid = u @ rest" by blast
  from "8.IH"(1) [OF a] obtain v where "s = v @ mid" by blast
  with b show ?case by auto
next
  case (9 rs)
  then show ?case by simp
next
  case (10 rs caps1 rest1 ms)
  from "10.prems" have "(caps, rest) \<in> set (map (prepend caps1) (m_seq rs rest1)) \<or>
      (caps, rest) \<in> set (m_cont rs ms)" by simp
  then show ?case
  proof
    assume "(caps, rest) \<in> set (map (prepend caps1) (m_seq rs rest1))"
    then obtain c2 where "(c2, rest) \<in> set (m_seq rs rest1)" by force
    from "10.IH"(1) [OF this] obtain u where "rest1 = u @ rest" by blast
    then show ?thesis by auto
  next
    assume "(caps, rest) \<in> set (m_cont rs ms)"
    from "10.IH"(2) [OF this] show ?thesis by auto
  qed
qed

lemma m_seq_Nil_iff: "(caps, rest) \<in> set (m_seq [] s) \<longleftrightarrow> caps = [] \<and> rest = s"
  by auto

lemma m_seq_append_iff:
  "(caps, rest) \<in> set (m_seq (xs @ ys) s) \<longleftrightarrow>
     (\<exists>c1 mid c2. (c1, mid) \<in> set (m_seq xs s) \<and> (c2, rest) \<in> set (m_seq ys mid) \<and> caps = c1 @ c2)"
proof (induction xs arbitrary: s caps)
  case Nil
  then show ?case by (simp only: append_Nil m_seq_Nil_iff) auto
next
  case (Cons x xs)
  show ?case
  proof
    assume "(caps, rest) \<in> set (m_seq ((x # xs) @ ys) s)"
    then obtain c1 mid c2 where a: "(c1, mid) \<in> set (m_rx x s)"
      and b: "(c2, rest) \<in> set (m_seq (xs @ ys) mid)" and c: "caps = c1 @ c2"
      unfolding append_Cons m_seq_Cons_iff by blast
    from b obtain d1 mid' d2 where d: "(d1, mid') \<in> set (m_seq xs mid)"
      and e: "(d2, rest) \<in> set (m_seq ys mid')" and f: "c2 = d1 @ d2"
      unfolding Cons.IH by blast
    from a d have "(c1 @ d1, mid') \<in> set (m_seq (x # xs) s)"
      unfolding m_seq_Cons_iff by blast
    with e c f show "\<exists>c1 mid c2. (c1, mid) \<in> set (m_seq (x # xs) s) \<and>
        (c2, rest) \<in> set (m_seq ys mid) \<and> caps = c1 @ c2"
      by (metis append.assoc)
  next
    assume "\<exists>c1 mid c2. (c1, mid) \<in> set (m_seq (x # xs) s) \<and>
        (c2, rest) \<in> set (m_seq ys mid) \<and> caps = c1 @ c2"
    then obtain c1 mid c2 where a: "(c1, mid) \<in> set (m_seq (x # xs) s)"
      and b: "(c2, rest) \<in> set (m_seq ys mid)" and c: "caps = c1 @ c2" by blast
    from a obtain d1 mid' d2 where d: "(d1, mid') \<in> set (m_rx x s)"
      and e: "(d2, mid) \<in> set (m_seq xs mid')" and f: "c1 = d1 @ d2"
      unfolding m_seq_Cons_iff by blast
    from e b have "(d2 @ c2, rest) \<in> set (m_seq (xs @ ys) mid')"
      unfolding Cons.IH by blast
    with d have "(d1 @ d2 @ c2, rest) \<in> set (m_seq ((x # xs) @ ys) s)"
      unfolding append_Cons m_seq_Cons_iff by blast
    with c f show "(caps, rest) \<in> set (m_seq ((x # xs) @ ys) s)" by simp
  qed
qed

lemma in_Grp:
  "(caps, rest) \<in> set (m_rx (Grp rs) s) \<Longrightarrow>
     \<exists>u caps'. s = u @ rest \<and> caps = u # caps' \<and> (caps', rest) \<in> set (m_seq rs s)"
proof -
  assume "(caps, rest) \<in> set (m_rx (Grp rs) s)"
  then obtain caps' where a: "(caps', rest) \<in> set (m_seq rs s)"
    and c: "caps = take (length s - length rest) s # caps'" by auto
  from m_seq_suffix(2) [OF a] obtain u where "s = u @ rest" by blast
  with a c show ?thesis by auto
qed

lemma peel_lit:
  "(caps, rest) \<in> set (m_seq (Lit c # rs) s) \<Longrightarrow>
     \<exists>s'. s = c # s' \<and> (caps, rest) \<in> set (m_seq rs s')"
  unfolding m_seq_Cons_iff in_Lit by auto

lemma peel_lit_last:
  "(caps, rest) \<in> set (m_seq [Lit c] s) \<Longrightarrow> s = c # rest \<and> caps = []"
  unfolding m_seq_Cons_iff in_Lit m_seq_Nil_iff by auto

lemma in_Grp_Plus:
  assumes "(caps, rest) \<in> set (m_rx (Grp [Plus p]) s)"
  shows "\<exists>u. s = u @ rest \<and> u \<noteq> [] \<and> list_all p u \<and> caps = [u]"
proof -
  from in_Grp [OF assms] obtain u caps' where
    u: "s = u @ rest" "caps = u # caps'" and m: "(caps', rest) \<in> set (m_seq [Plus p] s)"
    by blast
  from m obtain c1 where "(c1, rest) \<in> set (m_rx (Plus p) s)" "caps' = c1"
    unfolding m_seq_Cons_iff m_seq_Nil_iff by auto
  with in_Plus [of c1 rest p s] obtain v where "caps' = []" "s = v @ rest" "v \<noteq> []" "list_all p v"
    by blast
  with u show ?thesis by auto
qed

lemma in_Grp_Star:
  assumes "(caps, rest) \<in> set (m_rx (Grp [Star p]) s)"
  shows "\<exists>u. s = u @ rest \<and> list_all p u \<and> caps = [u]"
proof -
  from in_Grp [OF assms] obtain u caps' where
    u: "s = u @ rest" "caps = u # caps'" and m: "(caps', rest) \<in> set (m_seq [Star p] s)"
    by blast
  from m obtain c1 where "(c1, rest) \<in> set (m_rx (Star p) s)" "caps' = c1"
    unfolding m_seq_Cons_iff m_seq_Nil_iff by auto
  with in_Star [of c1 rest p s] obtain v where "caps' = []" "s = v @ rest" "list_all p v"
    by blast
  with u show ?thesis by auto
qed

lemma not_quote_all: "list_all not_quote g \<longleftrightarrow> CHR 0x27 \<notin> set g"
  by (auto simp: list_all_iff not_quote_def)

lemma peel_quoted_plus:
  assumes "(caps, rest) \<in> set (m_seq (quoted_plus @ rs) s)"
  shows "\<exists>g s' caps'. s = CHR 0x27 # g @ CHR 0x27 # s' \<and> g \<noteq> [] \<and> CHR 0x27 \<notin> set g \<and>
           caps = g # caps' \<and> (caps', rest) \<in> set (m_seq rs s')"
proof -
  from assms have a: "(caps, rest) \<in> set (m_seq (Lit (CHR 0x27) # Grp [Plus not_quote] # Lit (CHR 0x27) # rs) s)"
    by (simp only: quoted_plus_def append_Cons append_Nil)
  from peel_lit [OF a] obtain s1 where s1: "s = CHR 0x27 # s1"
    and b: "(caps, rest) \<in> set (m_seq (Grp [Plus not_quote] # Lit (CHR 0x27) # rs) s1)" by blast
  from b obtain c1 mid c2 where c: "(c1, mid) \<in> set (m_rx (Grp [Plus not_quote]) s1)"
    and d: "(c2, rest) \<in> set (m_seq (Lit (CHR 0x27) # rs) mid)" and e: "caps = c1 @ c2"
    unfolding m_seq_Cons_iff [of caps rest "Grp [Plus not_quote]"] by blast
  from in_Grp_Plus [OF c] obtain g where g: "s1 = g @ mid" "g \<noteq> []" "list_all not_quote g" "c1 = [g]"
    by blast
  from peel_lit [OF d] obtain s' where s': "mid = CHR 0x27 # s'" "(c2, rest) \<in> set (m_seq rs s')"
    by blast
  from s1 g s' e show ?thesis by (auto simp: not_quote_all)
qed

lemma peel_quoted_star:
  assumes "(caps, rest) \<in> set (m_seq (quoted_star @ rs) s)"
  shows "\<exists>g s' caps'. s = CHR 0x27 # g @ CHR 0x27 # s' \<and> CHR 0x27 \<notin> set g \<and>
           caps = g # caps' \<and> (caps', rest) \<in> set (m_seq rs s')"
proof -
  from assms have a: "(caps, rest) \<in> set (m_seq (Lit (CHR 0x27) # Grp [Star not_quote] # Lit (CHR 0x27) # rs) s)"
    by (simp only: quoted_star_def append_Cons append_Nil)
  from peel_lit [OF a] obtain s1 where s1: "s = CHR 0x27 # s1"
    and b: "(caps, rest) \<in> set (m_seq (Grp [Star not_quote] # Lit (CHR 0x27) # rs) s1)" by blast
  from b obtain c1 mid c2 where c: "(c1, mid) \<in> set (m_rx (Grp [Star not_quote]) s1)"
    and d: "(c2, rest) \<in> set (m_seq (Lit (CHR 0x27) # rs) mid)" and e: "caps = c1 @ c2"
    unfolding m_seq_Cons_iff [of caps rest "Grp [Star not_quote]"] by blast
  from in_Grp_Star [OF c] obtain g where g: "s1 = g @ mid" "list_all not_quote g" "c1 = [g]"
    by blast
  from peel_lit [OF d] obtain s' where s': "mid = CHR 0x27 # s'" "(c2, rest) \<in> set (m_seq rs s')"
    by blast
  from s1 g s' e show ?thesis by (auto simp: not_quote_all)
qed

lemma peel_comma:
  assumes "(caps, rest) \<in> set (m_seq (comma @ rs) s)"
  shows "\<exists>w s'. s = CHR '','' # w @ s' \<and> list_all isspace w \<and> (caps, rest) \<in> set (m_seq rs s')"
proof -
  from assms have a: "(caps, rest) \<in> set (m_seq (Lit (CHR '','') # Star isspace # rs) s)"
    by (simp only: comma_def append_Cons append_Nil)
  from peel_lit [OF a] obtain s1 where s1: "s = CHR '','' # s1"
    and b: "(caps, rest) \<in> set (m_seq (Star isspace # rs) s1)" by blast
  from b obtain c1 mid c2 where c: "(c1, mid) \<in> set (m_rx (Star isspace) s1)"
    and d: "(c2, rest) \<in> set (m_seq rs mid)" and e: "caps = c1 @ c2"
    unfolding m_seq_Cons_iff [of caps rest "Star isspace"] by blast
  from in_Star [OF c] obtain w where "c1 = []" "s1 = w @ mid" "list_all isspace w" by blast
  with s1 d e show ?thesis by auto
qed

lemma is_numeral_digits:
  assumes "ip \<noteq> []" "list_all isdigit ip"
  shows "is_numeral ip"
proof -
  from assms(2) have "takeWhile isdigit ip = ip" "dropWhile isdigit ip = []"
    by (simp_all add: list_all_iff)
  then show ?thesis unfolding is_numeral_def Let_def using assms(1) by (simp only: simp_thms)
qed

lemma is_numeral_point:
  assumes "ip \<noteq> []" "list_all isdigit ip" "fp \<noteq> []" "list_all isdigit fp"
  shows "is_numeral (ip @ CHR ''.'' # fp)"
proof -
  have nd: "\<not> isdigit (CHR ''.'')" by (simp add: isdigit_def)
  from assms(2) have "takeWhile isdigit (ip @ CHR ''.'' # fp) = ip"
    "dropWhile isdigit (ip @ CHR ''.'' # fp) = CHR ''.'' # fp"
    using nd by (simp_all add: list_all_iff takeWhile_append2 dropWhile_append2)
  with assms show ?thesis by (simp add: is_numeral_def)
qed

lemma peel_number:
  assumes "(caps, rest) \<in> set (m_seq (number @ rs) s)"
  shows "\<exists>g s' caps'. s = g @ s' \<and> is_numeral g \<and> caps = g # caps' \<and>
           (caps', rest) \<in> set (m_seq rs s')"
proof -
  let ?frac = "[Lit (CHR ''.''), Plus isdigit]"
  from assms have "(caps, rest) \<in> set (m_seq (Grp [Plus isdigit, Opt ?frac] # rs) s)"
    by (simp only: number_def append_Cons append_Nil)
  then obtain c1 s' c2 where c: "(c1, s') \<in> set (m_rx (Grp [Plus isdigit, Opt ?frac]) s)"
    and d: "(c2, rest) \<in> set (m_seq rs s')" and e: "caps = c1 @ c2"
    unfolding m_seq_Cons_iff [of caps rest "Grp [Plus isdigit, Opt ?frac]"] by blast
  from in_Grp [OF c] obtain g caps' where
    g: "s = g @ s'" "c1 = g # caps'" and m: "(caps', s') \<in> set (m_seq [Plus isdigit, Opt ?frac] s)"
    by blast
  from m obtain a1 m1 a2 where p: "(a1, m1) \<in> set (m_rx (Plus isdigit) s)"
    and o: "(a2, s') \<in> set (m_seq [Opt ?frac] m1)" and ce: "caps' = a1 @ a2"
    unfolding m_seq_Cons_iff [of caps' s' "Plus isdigit"] by blast
  from in_Plus [OF p] obtain ip where ip: "a1 = []" "s = ip @ m1" "ip \<noteq> []" "list_all isdigit ip"
    by blast
  from o have o': "(a2, s') \<in> set (m_rx (Opt ?frac) m1)"
    unfolding m_seq_Cons_iff m_seq_Nil_iff by auto
  from in_Opt [OF o'] have "caps' = [] \<and> is_numeral g"
  proof
    assume f: "(a2, s') \<in> set (m_seq ?frac m1)"
    from peel_lit [OF f] obtain m2 where m2: "m1 = CHR ''.'' # m2"
      and q: "(a2, s') \<in> set (m_seq [Plus isdigit] m2)" by blast
    from q have "(a2, s') \<in> set (m_rx (Plus isdigit) m2)"
      unfolding m_seq_Cons_iff m_seq_Nil_iff by auto
    from in_Plus [OF this] obtain fp where fp: "a2 = []" "m2 = fp @ s'" "fp \<noteq> []" "list_all isdigit fp"
      by blast
    from g(1) ip(2) m2 fp(2) have "g = ip @ CHR ''.'' # fp" by simp
    with is_numeral_point [OF ip(3,4) fp(3,4)] ce ip(1) fp(1) show ?thesis by simp
  next
    assume f: "a2 = [] \<and> s' = m1"
    with g(1) ip(2) have "g = ip" by simp
    with is_numeral_digits [OF ip(3,4)] ce ip(1) f show ?thesis by simp
  qed
  with g d e show ?thesis by auto
qed

lemma pattern_match_shape:
  assumes "(caps, rest) \<in> set (m_seq pattern s)"
  obtains g1 w1 g2 w2 g3 w3 g4 w4 g5 w5 g6 w6 g7 w7 g8 w8 g9 w9 g10 w10 g11 w11 g12 w12 g13 where
    "s = CHR ''('' # CHR 0x27 # g1 @ CHR 0x27 # CHR '','' # w1 @ CHR 0x27 # g2 @ CHR 0x27 # CHR '','' # w2 @ g3 @ CHR '','' # w3 @ CHR 0x27 # g4 @ CHR 0x27 # CHR '','' # w4 @ g5 @ CHR '','' # w5 @ g6 @ CHR '','' # w6 @ g7 @ CHR '','' # w7 @ g8 @ CHR '','' # w8 @ g9 @ CHR '','' # w9 @ g10 @ CHR '','' # w10 @ CHR 0x27 # g11 @ CHR 0x27 # CHR '','' # w11 @ CHR 0x27 # g12 @ CHR 0x27 # CHR '','' # w12 @ CHR 0x27 # g13 @ CHR 0x27 # CHR '')'' # rest"
    "caps = [g1, g2, g3, g4, g5, g6, g7, g8, g9, g10, g11, g12, g13]"
    "g1 \<noteq> []" "CHR 0x27 \<notin> set g1" "list_all isspace w1" "CHR 0x27 \<notin> set g2"
    "list_all isspace w2" "is_numeral g3" "list_all isspace w3" "g4 \<noteq> []"
    "CHR 0x27 \<notin> set g4" "list_all isspace w4" "is_numeral g5" "list_all isspace w5"
    "is_numeral g6" "list_all isspace w6" "is_numeral g7" "list_all isspace w7"
    "is_numeral g8" "list_all isspace w8" "is_numeral g9" "list_all isspace w9"
    "is_numeral g10" "list_all isspace w10" "g11 \<noteq> []" "CHR 0x27 \<notin> set g11"
    "list_all isspace w11" "g12 \<noteq> []" "CHR 0x27 \<notin> set g12" "list_all isspace w12"
    "g13 \<noteq> []" "CHR 0x27 \<notin> set g13"
proof -
  from assms have h0: "(caps, rest) \<in> set (m_seq (Lit (CHR ''('') # quoted_plus @ comma @ quoted_star @ comma @ number @ comma @ quoted_plus @ comma @ number @ comma @ number @ comma @ number @ comma @ number @ comma @ number @ comma @ number @ comma @ quoted_plus @ comma @ quoted_plus @ comma @ quoted_plus @ [Lit (CHR '')'')]) s)"
    by (simp only: pattern_def append_Cons append_Nil)
  from peel_lit [OF h0] obtain t0 where e0: "s = CHR ''('' # t0"
    and m0: "(caps, rest) \<in> set (m_seq (quoted_plus @ comma @ quoted_star @ comma @ number @ comma @ quoted_plus @ comma @ number @ comma @ number @ comma @ number @ comma @ number @ comma @ number @ comma @ number @ comma @ quoted_plus @ comma @ quoted_plus @ comma @ quoted_plus @ [Lit (CHR '')'')]) t0)" by blast
  from peel_quoted_plus [OF m0] obtain g1 t1 c1 where e1: "t0 = CHR 0x27 # g1 @ CHR 0x27 # t1"
    and f1: "g1 \<noteq> []" "CHR 0x27 \<notin> set g1"
    and k1: "caps = g1 # c1"
    and m1: "(c1, rest) \<in> set (m_seq (comma @ quoted_star @ comma @ number @ comma @ quoted_plus @ comma @ number @ comma @ number @ comma @ number @ comma @ number @ comma @ number @ comma @ number @ comma @ quoted_plus @ comma @ quoted_plus @ comma @ quoted_plus @ [Lit (CHR '')'')]) t1)" by blast
  from peel_comma [OF m1] obtain w1 t2 where e2: "t1 = CHR '','' # w1 @ t2"
    and f2: "list_all isspace w1"
    and m2: "(c1, rest) \<in> set (m_seq (quoted_star @ comma @ number @ comma @ quoted_plus @ comma @ number @ comma @ number @ comma @ number @ comma @ number @ comma @ number @ comma @ number @ comma @ quoted_plus @ comma @ quoted_plus @ comma @ quoted_plus @ [Lit (CHR '')'')]) t2)" by blast
  from peel_quoted_star [OF m2] obtain g2 t3 c2 where e3: "t2 = CHR 0x27 # g2 @ CHR 0x27 # t3"
    and f3: "CHR 0x27 \<notin> set g2"
    and k3: "c1 = g2 # c2"
    and m3: "(c2, rest) \<in> set (m_seq (comma @ number @ comma @ quoted_plus @ comma @ number @ comma @ number @ comma @ number @ comma @ number @ comma @ number @ comma @ number @ comma @ quoted_plus @ comma @ quoted_plus @ comma @ quoted_plus @ [Lit (CHR '')'')]) t3)" by blast
  from peel_comma [OF m3] obtain w2 t4 where e4: "t3 = CHR '','' # w2 @ t4"
    and f4: "list_all isspace w2"
    and m4: "(c2, rest) \<in> set (m_seq (number @ comma @ quoted_plus @ comma @ number @ comma @ number @ comma @ number @ comma @ number @ comma @ number @ comma @ number @ comma @ quoted_plus @ comma @ quoted_plus @ comma @ quoted_plus @ [Lit (CHR '')'')]) t4)" by blast
  from peel_number [OF m4] obtain g3 t5 c3 where e5: "t4 = g3 @ t5"
    and f5: "is_numeral g3"
    and k5: "c2 = g3 # c3"
    and m5: "(c3, rest) \<in> set (m_seq (comma @ quoted_plus @ comma @ number @ comma @ number @ comma @ number @ comma @ number @ comma @ number @ comma @ number @ comma @ quoted_plus @ comma @ quoted_plus @ comma @ quoted_plus @ [Lit (CHR '')'')]) t5)" by blast
  from peel_comma [OF m5] obtain w3 t6 where e6: "t5 = CHR '','' # w3 @ t6"
    and f6: "list_all isspace w3"
    and m6: "(c3, rest) \<in> set (m_seq (quoted_plus @ comma @ number @ comma @ number @ comma @ number @ comma @ number @ comma @ number @ comma @ number @ comma @ quoted_plus @ comma @ quoted_plus @ comma @ quoted_plus @ [Lit (CHR '')'')]) t6)" by blast
  from peel_quoted_plus [OF m6] obtain g4 t7 c4 where e7: "t6 = CHR 0x27 # g4 @ CHR 0x27 # t7"
    and f7: "g4 \<noteq> []" "CHR 0x27 \<notin> set g4"
    and k7: "c3 = g4 # c4"
    and m7: "(c4, rest) \<in> set (m_seq (comma @ number @ comma @ number @ comma @ number @ comma @ number @ comma @ number @ comma @ number @ comma @ quoted_plus @ comma @ quoted_plus @ comma @ quoted_plus @ [Lit (CHR '')'')]) t7)" by blast
  from peel_comma [OF m7] obtain w4 t8 where e8: "t7 = CHR '','' # w4 @ t8"
    and f8: "list_all isspace w4"
    and m8: "(c4, rest) \<in> set (m_seq (number @ comma @ number @ comma @ number @ comma @ number @ comma @ number @ comma @ number @ comma @ quoted_plus @ comma @ quoted_plus @ comma @ quoted_plus @ [Lit (CHR '')'')]) t8)" by blast
  from peel_number [OF m8] obtain g5 t9 c5 where e9: "t8 = g5 @ t9"
    and f9: "is_numeral g5"
    and k9: "c4 = g5 # c5"
    and m9: "(c5, rest) \<in> set (m_seq (comma @ number @ comma @ number @ comma @ number @ comma @ number @ comma @ number @ comma @ quoted_plus @ comma @ quoted_plus @ comma @ quoted_plus @ [Lit (CHR '')'')]) t9)" by blast
  from peel_comma [OF m9] obtain w5 t10 where e10: "t9 = CHR '','' # w5 @ t10"
    and f10: "list_all isspace w5"
    and m10: "(c5, rest) \<in> set (m_seq (number @ comma @ number @ comma @ number @ comma @ number @ comma @ number @ comma @ quoted_plus @ comma @ quoted_plus @ comma @ quoted_plus @ [Lit (CHR '')'')]) t10)" by blast
  from peel_number [OF m10] obtain g6 t11 c6 where e11: "t10 = g6 @ t11"
    and f11: "is_numeral g6"
    and k11: "c5 = g6 # c6"
    and m11: "(c6, rest) \<in> set (m_seq (comma @ number @ comma @ number @ comma @ number @ comma @ number @ comma @ quoted_plus @ comma @ quoted_plus @ comma @ quoted_plus @ [Lit (CHR '')'')]) t11)" by blast
  from peel_comma [OF m11] obtain w6 t12 where e12: "t11 = CHR '','' # w6 @ t12"
    and f12: "list_all isspace w6"
    and m12: "(c6, rest) \<in> set (m_seq (number @ comma @ number @ comma @ number @ comma @ number @ comma @ quoted_plus @ comma @ quoted_plus @ comma @ quoted_plus @ [Lit (CHR '')'')]) t12)" by blast
  from peel_number [OF m12] obtain g7 t13 c7 where e13: "t12 = g7 @ t13"
    and f13: "is_numeral g7"
    and k13: "c6 = g7 # c7"
    and m13: "(c7, rest) \<in> set (m_seq (comma @ number @ comma @ number @ comma @ number @ comma @ quoted_plus @ comma @ quoted_plus @ comma @ quoted_plus @ [Lit (CHR '')'')]) t13)" by blast
  from peel_comma [OF m13] obtain w7 t14 where e14: "t13 = CHR '','' # w7 @ t14"
    and f14: "list_all isspace w7"
    and m14: "(c7, rest) \<in> set (m_seq (number @ comma @ number @ comma @ number @ comma @ quoted_plus @ comma @ quoted_plus @ comma @ quoted_plus @ [Lit (CHR '')'')]) t14)" by blast
  from peel_number [OF m14] obtain g8 t15 c8 where e15: "t14 = g8 @ t15"
    and f15: "is_numeral g8"
    and k15: "c7 = g8 # c8"
    and m15: "(c8, rest) \<in> set (m_seq (comma @ number @ comma @ number @ comma @ quoted_plus @ comma @ quoted_plus @ comma @ quoted_plus @ [Lit (CHR '')'')]) t15)" by blast
  from peel_comma [OF m15] obtain w8 t16 where e16: "t15 = CHR '','' # w8 @ t16"
    and f16: "list_all isspace w8"
    and m16: "(c8, rest) \<in> set (m_seq (number @ comma @ number @ comma @ quoted_plus @ comma @ quoted_plus @ comma @ quoted_plus @ [Lit (CHR '')'')]) t16)" by blast
  from peel_number [OF m16] obtain g9 t17 c9 where e17: "t16 = g9 @ t17"
    and f17: "is_numeral g9"
    and k17: "c8 = g9 # c9"
    and m17: "(c9, rest) \<in> set (m_seq (comma @ number @ comma @ quoted_plus @ comma @ quoted_plus @ comma @ quoted_plus @ [Lit (CHR '')'')]) t17)" by blast
  from peel_comma [OF m17] obtain w9 t18 where e18: "t17 = CHR '','' # w9 @ t18"
    and f18: "list_all isspace w9"
    and m18: "(c9, rest) \<in> set (m_seq (number @ comma @ quoted_plus @ comma @ quoted_plus @ comma @ quoted_plus @ [Lit (CHR '')'')]) t18)" by blast
  from peel_number [OF m18] obtain g10 t19 c10 where e19: "t18 = g10 @ t19"
    and f19: "is_numeral g10"
    and k19: "c9 = g10 # c10"
    and m19: "(c10, rest) \<in> set (m_seq (comma @ quoted_plus @ comma @ quoted_plus @ comma @ quoted_plus @ [Lit (CHR '')'')]) t19)" by blast
  from peel_comma [OF m19] obtain w10 t20 where e20: "t19 = CHR '','' # w10 @ t20"
    and f20: "list_all isspace w10"
    and m20: "(c10, rest) \<in> set (m_seq (quoted_plus @ comma @ quoted_plus @ comma @ quoted_plus @ [Lit (CHR '')'')]) t20)" by blast
  from peel_quoted_plus [OF m20] obtain g11 t21 c11 where e21: "t20 = CHR 0x27 # g11 @ CHR 0x27 # t21"
    and f21: "g11 \<noteq> []" "CHR 0x27 \<notin> set g11"
    and k21: "c10 = g11 # c11"
    and m21: "(c11, rest) \<in> set (m_seq (comma @ quoted_plus @ comma @ quoted_plus @ [Lit (CHR '')'')]) t21)" by blast
  from peel_comma [OF m21] obtain w11 t22 where e22: "t21 = CHR '','' # w11 @ t22"
    and f22: "list_all isspace w11"
    and m22: "(c11, rest) \<in> set (m_seq (quoted_plus @ comma @ quoted_plus @ [Lit (CHR '')'')]) t22)" by blast
  from peel_quoted_plus [OF m22] obtain g12 t23 c12 where e23: "t22 = CHR 0x27 # g12 @ CHR 0x27 # t23"
    and f23: "g12 \<noteq> []" "CHR 0x27 \<notin> set g12"
    and k23: "c11 = g12 # c12"
    and m23: "(c12, rest) \<in> set (m_seq (comma @ quoted_plus @ [Lit (CHR '')'')]) t23)" by blast
  from peel_comma [OF m23] obtain w12 t24 where e24: "t23 = CHR '','' # w12 @ t24"
    and f24: "list_all isspace w12"
    and m24: "(c12, rest) \<in> set (m_seq (quoted_plus @ [Lit (CHR '')'')]) t24)" by blast
  from peel_quoted_plus [OF m24] obtain g13 t25 c13 where e25: "t24 = CHR 0x27 # g13 @ CHR 0x27 # t25"
    and f25: "g13 \<noteq> []" "CHR 0x27 \<notin> set g13"
    and k25: "c12 = g13 # c13"
    and m25: "(c13, rest) \<in> set (m_seq ([Lit (CHR '')'')]) t25)" by blast
  from peel_lit_last [OF m25] have e26: "t25 = CHR '')'' # rest" and k26: "c13 = []" by blast+
  have S: "s = CHR ''('' # CHR 0x27 # g1 @ CHR 0x27 # CHR '','' # w1 @ CHR 0x27 # g2 @ CHR 0x27 # CHR '','' # w2 @ g3 @ CHR '','' # w3 @ CHR 0x27 # g4 @ CHR 0x27 # CHR '','' # w4 @ g5 @ CHR '','' # w5 @ g6 @ CHR '','' # w6 @ g7 @ CHR '','' # w7 @ g8 @ CHR '','' # w8 @ g9 @ CHR '','' # w9 @ g10 @ CHR '','' # w10 @ CHR 0x27 # g11 @ CHR 0x27 # CHR '','' # w11 @ CHR 0x27 # g12 @ CHR 0x27 # CHR '','' # w12 @ CHR 0x27 # g13 @ CHR 0x27 # CHR '')'' # rest"
    unfolding e0 e1 e2 e3 e4 e5 e6 e7 e8 e9 e10 e11 e12 e13 e14 e15 e16 e17 e18 e19 e20 e21 e22 e23 e24 e25 e26 append_Cons append_assoc by (rule refl)
  have C: "caps = [g1, g2, g3, g4, g5, g6, g7, g8, g9, g10, g11, g12, g13]"
    unfolding k1 k3 k5 k7 k9 k11 k13 k15 k17 k19 k21 k23 k25 k26 by (rule refl)
  show thesis
    by (rule that [OF S C f1 f2 f3 f4 f5 f6 f7 f8 f9 f10 f11 f12 f13 f14 f15 f16 f17 f18 f19 f20 f21 f22 f23 f24 f25])
qed



lemma re_search_None:
  "(\<And>pre t. s = pre @ t \<Longrightarrow> m_seq rs t = []) \<Longrightarrow> re_search rs s = None"
proof (induction s)
  case Nil
  from Nil [of "[]" "[]"] show ?case by simp
next
  case (Cons c cs)
  from Cons.prems [of "[]" "c # cs"] have a: "m_seq rs (c # cs) = []" by simp
  have "re_search rs cs = None"
  proof (rule Cons.IH)
    fix pre t assume "cs = pre @ t"
    then have "c # cs = (c # pre) @ t" by simp
    then show "m_seq rs t = []" by (rule Cons.prems)
  qed
  with a show ?case by simp
qed


lemma is_numeral_chars:
  assumes "is_numeral g" "c \<in> set g"
  shows "isdigit c \<or> c = CHR ''.''"
proof -
  have g: "g = takeWhile isdigit g @ dropWhile isdigit g" by simp
  from assms(2) g have "c \<in> set (takeWhile isdigit g) \<or> c \<in> set (dropWhile isdigit g)"
    by (metis Un_iff set_append)
  then show ?thesis
  proof
    assume "c \<in> set (takeWhile isdigit g)"
    then show ?thesis by (auto dest: set_takeWhileD)
  next
    assume d: "c \<in> set (dropWhile isdigit g)"
    then have ne: "dropWhile isdigit g \<noteq> []" by (metis empty_iff list.set(1))
    with assms(1) have h: "hd (dropWhile isdigit g) = CHR ''.''"
      "list_all isdigit (tl (dropWhile isdigit g))"
      by (auto simp: is_numeral_def Let_def)
    from ne d have "c = hd (dropWhile isdigit g) \<or> c \<in> set (tl (dropWhile isdigit g))"
      by (cases "dropWhile isdigit g") auto
    with h show ?thesis by (auto simp: list_all_iff)
  qed
qed

lemma is_numeral_no_quote: "is_numeral g \<Longrightarrow> CHR 0x27 \<notin> set g"
  by (auto dest!: is_numeral_chars simp: isdigit_def)

lemma is_numeral_no_comma: "is_numeral g \<Longrightarrow> CHR '','' \<notin> set g"
  by (auto dest!: is_numeral_chars simp: isdigit_def)

lemma is_numeral_nonempty: "is_numeral g \<Longrightarrow> g \<noteq> []"
  by (auto simp: is_numeral_def)

lemma isspace_no_quote: "list_all isspace w \<Longrightarrow> CHR 0x27 \<notin> set w"
  by (auto simp: list_all_iff isspace_def)





lemma split_unique:
  "q \<notin> set a \<Longrightarrow> q \<notin> set b \<Longrightarrow> a @ q # x = b @ q # y \<Longrightarrow> a = b \<and> x = y"
proof (induction a arbitrary: b)
  case Nil
  then show ?case by (cases b) auto
next
  case (Cons c a)
  then show ?case by (cases b) auto
qed

lemma digit_char_isdigit:
  assumes "0 \<le> d" "d < 10"
  shows "isdigit (digit_char d)"
proof -
  from assms have "nat (48 + d) mod 256 = nat (48 + d)" by simp
  moreover from assms have "48 \<le> nat (48 + d)" "nat (48 + d) \<le> 57" by linarith+
  ultimately show ?thesis by (simp add: digit_char_def isdigit_def Let_def)
qed

lemma str_digits_isdigit: "0 \<le> n \<Longrightarrow> list_all isdigit (str_digits n)"
proof (induction n rule: str_digits.induct)
  case (1 n)
  show ?case
  proof (cases "n < 10")
    case True
    with "1.prems" show ?thesis
      by (subst str_digits.simps) (simp add: digit_char_isdigit)
  next
    case False
    with "1.prems" have a: "0 \<le> n div 10" and b: "0 \<le> n mod 10" "n mod 10 < 10" by simp_all
    from "1.IH" [OF False a] digit_char_isdigit [OF b] False show ?thesis
      by (subst str_digits.simps) simp
  qed
qed

lemma isdigit_no_quote: "list_all isdigit s \<Longrightarrow> CHR 0x27 \<notin> set s"
  by (auto simp: list_all_iff isdigit_def)

lemma str_int_no_quote: "0 \<le> n \<Longrightarrow> CHR 0x27 \<notin> set (str_int n)"
  by (simp add: str_int_def isdigit_no_quote str_digits_isdigit)

lemma serving_desc_no_quote:
  assumes "serving_desc g3 g4 = Inr desc" "CHR 0x27 \<notin> set g3" "CHR 0x27 \<notin> set g4"
  shows "CHR 0x27 \<notin> set desc"
proof (cases "g4 = ''g''")
  case False
  with assms show ?thesis by (auto simp: serving_desc_def)
next
  case True
  with assms(1) obtain n where n: "int_float g3 = Inr n"
    and d: "desc = (if 1 < n then str_int n @ ''g'' else g3 @ ''g'')"
    by (cases "int_float g3") (auto simp: serving_desc_def bind_def split: if_splits)
  show ?thesis
  proof (cases "1 < n")
    case True
    then have "0 \<le> n" by simp
    from str_int_no_quote [OF this] d True show ?thesis by simp
  next
    case False
    with d assms(2) show ?thesis by simp
  qed
qed


lemma rewritten_line_no_match:
  assumes "CHR 0x27 \<notin> set g1" "CHR 0x27 \<notin> set g2" "CHR 0x27 \<notin> set desc"
    "CHR 0x27 \<notin> set c1" "CHR 0x27 \<notin> set c2" "CHR 0x27 \<notin> set c3"
    "CHR 0x27 \<notin> set c4" "CHR 0x27 \<notin> set c5" "CHR 0x27 \<notin> set c6"
    "CHR 0x27 \<notin> set g11" "CHR 0x27 \<notin> set g12" "CHR 0x27 \<notin> set g13"
    "CHR 0x27 \<notin> set tail"
  shows "re_search pattern (new_line g1 g2 desc c1 c2 c3 c4 c5 c6 g11 g12 g13 @ tail) = None"
proof (rule re_search_None)
  let ?q = "CHR 0x27"
  let ?out = "new_line g1 g2 desc c1 c2 c3 c4 c5 c6 g11 g12 g13 @ tail"
  fix pre t
  assume e: "?out = pre @ t"
  show "m_seq pattern t = []"
  proof (rule ccontr)
    assume "m_seq pattern t \<noteq> []"
    then obtain caps rest where m: "(caps, rest) \<in> set (m_seq pattern t)"
      by (cases "m_seq pattern t") auto
    from pattern_match_shape [OF m] obtain h1 w1 h2 w2 h3 w3 h4 w4 h5 w5 h6 w6 h7 w7 h8 w8 h9 w9
        h10 w10 h11 w11 h12 w12 h13 where
      t: "t = CHR ''('' # ?q # h1 @ ?q # CHR '','' # w1 @ ?q # h2 @ ?q # CHR '','' # w2 @ h3 @
            CHR '','' # w3 @ ?q # h4 @ ?q # CHR '','' # w4 @ h5 @ CHR '','' # w5 @ h6 @
            CHR '','' # w6 @ h7 @ CHR '','' # w7 @ h8 @ CHR '','' # w8 @ h9 @ CHR '','' # w9 @
            h10 @ CHR '','' # w10 @ ?q # h11 @ ?q # CHR '','' # w11 @ ?q # h12 @ ?q #
            CHR '','' # w12 @ ?q # h13 @ ?q # CHR '')'' # rest"
      and h: "?q \<notin> set h1" "?q \<notin> set h2" "is_numeral h3" "?q \<notin> set h4"
        "is_numeral h5" "is_numeral h6" "is_numeral h7" "is_numeral h8" "is_numeral h9"
        "is_numeral h10" "?q \<notin> set h11" "?q \<notin> set h12" "?q \<notin> set h13"
      and w: "list_all isspace w1" "list_all isspace w2" "list_all isspace w3"
        "list_all isspace w4" "list_all isspace w5" "list_all isspace w6" "list_all isspace w7"
        "list_all isspace w8" "list_all isspace w9" "list_all isspace w10" "list_all isspace w11"
        "list_all isspace w12"
      by metis
    note hq = h(1,2,4,11,12,13) h(3,5-10) [THEN is_numeral_no_quote] w [THEN isspace_no_quote]
    have "count_list ?out ?q = 12"
      using assms by (simp add: new_line_def)
    moreover have "count_list t ?q = 12 + count_list rest ?q"
      unfolding t using hq by simp
    ultimately have "count_list pre ?q = 0"
      unfolding e by simp
    then have pre: "?q \<notin> set pre" by (simp add: count_list_0_iff)
    have L: "?out = ''  ('' @ ?q # g1 @ ?q # '', '' @ ?q # g2 @ ?q # '', '' @ ?q #
        (desc @ ?q # '', '' @ c1 @ '', '' @ c2 @ '', '' @ c3 @ '', '' @ c4 @ '', '' @ c5 @ '', '' @
         c6 @ '', '' @ ?q # g11 @ ?q # '', '' @ ?q # g12 @ ?q # '', '' @ ?q # g13 @ ?q # '')'' @ tail)"
      by (simp add: new_line_def)
    have R: "pre @ t = (pre @ ''('') @ ?q # h1 @ ?q # (CHR '','' # w1) @ ?q # h2 @ ?q #
        (CHR '','' # w2 @ h3 @ CHR '','' # w3) @ ?q #
        (h4 @ ?q # CHR '','' # w4 @ h5 @ CHR '','' # w5 @ h6 @
            CHR '','' # w6 @ h7 @ CHR '','' # w7 @ h8 @ CHR '','' # w8 @ h9 @ CHR '','' # w9 @
            h10 @ CHR '','' # w10 @ ?q # h11 @ ?q # CHR '','' # w11 @ ?q # h12 @ ?q #
            CHR '','' # w12 @ ?q # h13 @ ?q # CHR '')'' # rest)"
      unfolding t by simp
    from e L R have E0: "''  ('' @ ?q # g1 @ ?q # '', '' @ ?q # g2 @ ?q # '', '' @ ?q #
        (desc @ ?q # '', '' @ c1 @ '', '' @ c2 @ '', '' @ c3 @ '', '' @ c4 @ '', '' @ c5 @ '', '' @
         c6 @ '', '' @ ?q # g11 @ ?q # '', '' @ ?q # g12 @ ?q # '', '' @ ?q # g13 @ ?q # '')'' @ tail)
       = (pre @ ''('') @ ?q # h1 @ ?q # (CHR '','' # w1) @ ?q # h2 @ ?q #
        (CHR '','' # w2 @ h3 @ CHR '','' # w3) @ ?q #
        (h4 @ ?q # CHR '','' # w4 @ h5 @ CHR '','' # w5 @ h6 @
            CHR '','' # w6 @ h7 @ CHR '','' # w7 @ h8 @ CHR '','' # w8 @ h9 @ CHR '','' # w9 @
            h10 @ CHR '','' # w10 @ ?q # h11 @ ?q # CHR '','' # w11 @ ?q # h12 @ ?q #
            CHR '','' # w12 @ ?q # h13 @ ?q # CHR '')'' # rest)"
      by (simp only:)
    have q0: "?q \<notin> set ''  (''" "?q \<notin> set (pre @ ''('')" "?q \<notin> set '', ''"
      "?q \<notin> set (CHR '','' # w1)" "?q \<notin> set (CHR '','' # w2 @ h3 @ CHR '','' # w3)"
      using pre hq by simp_all
    from split_unique [OF q0(1) q0(2) E0] have E1: "g1 @ ?q # '', '' @ ?q # g2 @ ?q # '', '' @ ?q #
        (desc @ ?q # '', '' @ c1 @ '', '' @ c2 @ '', '' @ c3 @ '', '' @ c4 @ '', '' @ c5 @ '', '' @
         c6 @ '', '' @ ?q # g11 @ ?q # '', '' @ ?q # g12 @ ?q # '', '' @ ?q # g13 @ ?q # '')'' @ tail)
       = h1 @ ?q # (CHR '','' # w1) @ ?q # h2 @ ?q #
        (CHR '','' # w2 @ h3 @ CHR '','' # w3) @ ?q #
        (h4 @ ?q # CHR '','' # w4 @ h5 @ CHR '','' # w5 @ h6 @
            CHR '','' # w6 @ h7 @ CHR '','' # w7 @ h8 @ CHR '','' # w8 @ h9 @ CHR '','' # w9 @
            h10 @ CHR '','' # w10 @ ?q # h11 @ ?q # CHR '','' # w11 @ ?q # h12 @ ?q #
            CHR '','' # w12 @ ?q # h13 @ ?q # CHR '')'' # rest)"
      by (rule conjunct2)
    note E2 = split_unique [OF assms(1) h(1) E1, THEN conjunct2]
    note E3 = split_unique [OF q0(3) q0(4) E2, THEN conjunct2]
    note E4 = split_unique [OF assms(2) h(2) E3, THEN conjunct2]
    note E5 = split_unique [OF q0(3) q0(5) E4, THEN conjunct1]
    from E5 have "length '', '' = length (CHR '','' # w2 @ h3 @ CHR '','' # w3)"
      by (rule arg_cong)
    with is_numeral_nonempty [OF h(3)] show False by simp
  qed
qed

subsection \<open>Lines that are not rewritten\<close>

text \<open>
  C4. A line whose stripped form does not start with \<open>('\<close>, or in which the pattern is
  found nowhere, is returned as it is, and no exception is raised.
\<close>

theorem other_lines_pass_through:
  "\<not> startswith (strip line) (''('' @ apos) \<or> re_search pattern line = None \<Longrightarrow>
     fix_values_line line = Inr line"
  by (auto simp: fix_values_line_def)

theorem other_lines_pass_through_witness:
  \<open>fix_values_line ''-- Insert foods\<newline>'' = Inr ''-- Insert foods\<newline>'' \<and>
   fix_values_line (''  (\'Banana\', 1 medium),\<newline>'') = Inr (''  (\'Banana\', 1 medium),\<newline>'')\<close>
proof -
  have a: \<open>\<not> startswith (strip ''-- Insert foods\<newline>'') (''('' @ apos)\<close>
    by code_simp
  have b: \<open>re_search pattern (''  (\'Banana\', 1 medium),\<newline>'') = None\<close>
    by code_simp
  from a have a': \<open>\<not> startswith (strip ''-- Insert foods\<newline>'') (''('' @ apos) \<or>
      re_search pattern ''-- Insert foods\<newline>'' = None\<close> ..
  from b have b': \<open>\<not> startswith (strip (''  (\'Banana\', 1 medium),\<newline>'')) (''('' @ apos) \<or>
      re_search pattern (''  (\'Banana\', 1 medium),\<newline>'') = None\<close> ..
  from other_lines_pass_through [OF a'] other_lines_pass_through [OF b'] show ?thesis ..
qed

subsection \<open>The serving description\<close>



end
